theory Spec2Isabelle
  imports Main "HOL-Library.Sublist"
begin

section \<open>The doc synchronizer \<^verbatim>\<open>meta/gen.py\<close>\<close>

text \<open>
  The script reads an example program, puts it as a doc comment in front of the
  marker line of the library source, and puts it as a fenced code block between two
  headings of the readme. A text is a \<^typ>\<open>string\<close>, the value Python's
  \<^verbatim>\<open>file.read()\<close> returns; the three markers are ASCII, and one \<^typ>\<open>char\<close>
  stands for one character of the text.
\<close>

subsection \<open>Exceptions\<close>

text \<open>
  The two exceptions the script can raise on a file system that holds texts: opening a
  path that does not exist, and indexing a list of parts beyond its end. The
  specification calls them MissingResourceError and MissingAnchorError.
\<close>

datatype error = FileNotFoundError | IndexError

subsection \<open>Splitting and joining\<close>

text \<open>
  \<^verbatim>\<open>str.split(sep)\<close> and \<^verbatim>\<open>re.split("a|b", text)\<close>, for a pattern that is an
  alternation of literal, non-empty strings, scan the text from the left. At each
  position the first alternative that occurs there is the match; the text since the
  last match is closed as a part and the scan goes on behind the match. Matches do
  not overlap, and the text behind the last match is the last part.
\<close>

definition match_at :: "string list \<Rightarrow> string \<Rightarrow> string option" where
  "match_at alts s = find (\<lambda>a. a \<noteq> [] \<and> prefix a s) alts"

fun push_char :: "char \<Rightarrow> string list \<Rightarrow> string list" where
  "push_char c [] = [[c]]"
| "push_char c (part # parts) = (c # part) # parts"

function split_on :: "string list \<Rightarrow> string \<Rightarrow> string list" where
  "split_on alts [] = [[]]"
| "split_on alts (c # cs) =
     (case match_at alts (c # cs) of
        Some a \<Rightarrow> [] # split_on alts (drop (length a) (c # cs))
      | None \<Rightarrow> push_char c (split_on alts cs))"
  by pat_completeness auto
termination
proof (relation "measure (\<lambda>(alts, s). length s)")
  show "wf (measure (\<lambda>(alts, s). length s))"
    by simp
next
  fix alts :: "string list" and c :: char and cs a
  assume "match_at alts (c # cs) = Some a"
  then have "a \<noteq> []"
    by (auto simp: match_at_def find_Some_iff)
  then show "((alts, drop (length a) (c # cs)), (alts, c # cs)) \<in> measure (\<lambda>(alts, s). length s)"
    by (cases a) simp_all
next
  fix alts :: "string list" and c :: char and cs
  show "((alts, cs), (alts, c # cs)) \<in> measure (\<lambda>(alts, s). length s)"
    by simp
qed

text \<open>\<^verbatim>\<open>text.split(sep)\<close> for a non-empty separator.\<close>

definition str_split :: "string \<Rightarrow> string \<Rightarrow> string list" where
  "str_split text sep = split_on [sep] text"

text \<open>\<^verbatim>\<open>re.split("# Usage\n|# Logging\n", text)\<close>: the alternatives in their order.\<close>

definition re_split :: "string list \<Rightarrow> string \<Rightarrow> string list" where
  "re_split alts text = split_on alts text"

text \<open>\<^verbatim>\<open>sep.join(parts)\<close>.\<close>

fun join :: "string \<Rightarrow> string list \<Rightarrow> string" where
  "join sep [] = []"
| "join sep [part] = part"
| "join sep (part # next_part # parts) = part @ sep @ join sep (next_part # parts)"

text \<open>\<^verbatim>\<open>parts[i]\<close> for an index that is not negative.\<close>

definition index :: "'a list \<Rightarrow> nat \<Rightarrow> error + 'a" where
  "index parts i = (if i < length parts then Inr (parts ! i) else Inl IndexError)"

subsection \<open>The functions of the script\<close>

text \<open>The files: a path has a text or does not exist.\<close>

type_synonym files = "string \<rightharpoonup> string"

definition read_file :: "files \<Rightarrow> string \<Rightarrow> error + string" where
  "read_file fs path = (case fs path of None \<Rightarrow> Inl FileNotFoundError | Some content \<Rightarrow> Inr content)"

definition write_file :: "files \<Rightarrow> string \<Rightarrow> string \<Rightarrow> files" where
  "write_file fs path content = fs(path \<mapsto> content)"

definition decorate :: "string \<Rightarrow> string \<Rightarrow> string" where
  "decorate text pre = join ''\<newline>'' (map (\<lambda>line. pre @ line) (str_split text ''\<newline>''))"

text \<open>
  Lines 19 and 21: the new library text, from the example and the text of
  \<^verbatim>\<open>src/lib.rs\<close> (the specification's \<^verbatim>\<open>splice_library\<close>).
\<close>

definition lib :: "string \<Rightarrow> string \<Rightarrow> error + string" where
  "lib example lib_text =
     (let parts = str_split lib_text ''// lib\<newline>'' in
      case index parts 1 of
        Inl e \<Rightarrow> Inl e
      | Inr part1 \<Rightarrow> Inr (decorate example ''//!'' @ ''\<newline>\<newline>// lib\<newline>'' @ part1))"

text \<open>
  Lines 25 to 28: the new readme text, from the example and the text of
  \<^verbatim>\<open>ReadMe.md\<close> (the specification's \<^verbatim>\<open>splice_readme\<close>).
\<close>

definition readme :: "string \<Rightarrow> string \<Rightarrow> error + string" where
  "readme example readme_text =
     (let parts = re_split [''# Usage\<newline>'', ''# Logging\<newline>''] readme_text in
      case index parts 0 of
        Inl e \<Rightarrow> Inl e
      | Inr part0 \<Rightarrow>
          (case index parts 2 of
             Inl e \<Rightarrow> Inl e
           | Inr part2 \<Rightarrow>
               Inr (part0 @ ''# Usage\<newline>\<newline>```rust\<newline>'' @ example
                    @ ''```\<newline>\<newline># Logging\<newline>'' @ part2)))"

text \<open>
  The whole script, lines 18 to 30, as a function of the files: the exception that
  ended the run, if any, and the files as the run leaves them. The library file is
  written before the readme is read, so a run that fails on the readme has already
  replaced the library file.
\<close>

definition gen :: "files \<Rightarrow> error option \<times> files" where
  "gen fs =
     (case read_file fs ''src/example.rs'' of
        Inl e \<Rightarrow> (Some e, fs)
      | Inr example \<Rightarrow>
     (case read_file fs ''src/lib.rs'' of
        Inl e \<Rightarrow> (Some e, fs)
      | Inr lib_text \<Rightarrow>
     (case lib example lib_text of
        Inl e \<Rightarrow> (Some e, fs)
      | Inr new_lib \<Rightarrow>
     (let fs1 = write_file fs ''src/lib.rs'' new_lib in
      case read_file fs1 ''ReadMe.md'' of
        Inl e \<Rightarrow> (Some e, fs1)
      | Inr readme_text \<Rightarrow>
     (case readme example readme_text of
        Inl e \<Rightarrow> (Some e, fs1)
      | Inr new_readme \<Rightarrow> (None, write_file fs1 ''ReadMe.md'' new_readme))))))"

subsection \<open>Occurrences of a marker\<close>

text \<open>
  The number of positions of a text at which one of the alternatives occurs, and the
  three markers of the script.
\<close>

primrec occurrences :: "string list \<Rightarrow> string \<Rightarrow> nat" where
  "occurrences alts [] = 0"
| "occurrences alts (c # cs) =
     (if match_at alts (c # cs) = None then 0 else 1) + occurrences alts cs"

definition lib_marker :: string where
  "lib_marker = ''// lib\<newline>''"

definition usage_anchor :: string where
  "usage_anchor = ''# Usage\<newline>''"

definition logging_anchor :: string where
  "logging_anchor = ''# Logging\<newline>''"

definition anchors :: "string list" where
  "anchors = [usage_anchor, logging_anchor]"

text \<open>
  A list of alternatives is separate when an occurrence of one of them is the match at
  its position, no match starts inside it, and no match that starts before it reaches
  into it: the scan then finds every occurrence.
\<close>

definition separate :: "string list \<Rightarrow> bool" where
  "separate alts \<longleftrightarrow>
     (\<forall>a \<in> set alts. \<forall>v.
        match_at alts (a @ v) = Some a \<and>
        occurrences alts (tl a @ v) = occurrences alts v \<and>
        (\<forall>u. u \<noteq> [] \<longrightarrow> match_at alts (u @ a @ v) = match_at alts u))"

text \<open>
  The decoration read character by character: \<open>decorate text pre\<close> is \<open>pre\<close>
  followed by the text with \<open>pre\<close> put behind each of its newlines.
\<close>

primrec decorate_rest :: "string \<Rightarrow> string \<Rightarrow> string" where
  "decorate_rest pre [] = []"
| "decorate_rest pre (c # cs) =
     (if c = CHR ''\<newline>'' then c # pre @ decorate_rest pre cs else c # decorate_rest pre cs)"

text \<open>
  The specification's wording for the library text: the number of its lines, as
  splitting on the newline gives them, that are the line \<^verbatim>\<open>// lib\<close>.
\<close>

definition lib_lines :: "string \<Rightarrow> nat" where
  "lib_lines lib_text = length (filter (\<lambda>line. line = ''// lib'') (str_split lib_text ''\<newline>''))"

section \<open>Properties of splitting and joining\<close>

lemma match_at_Some:
  "match_at alts s = Some a \<Longrightarrow> a \<noteq> [] \<and> prefix a s \<and> a \<in> set alts"
  by (auto simp: match_at_def find_Some_iff)

lemma match_at_None_prefix:
  "match_at alts s = None \<Longrightarrow> prefix p s \<Longrightarrow> match_at alts p = None"
  by (auto simp: match_at_def find_None_iff dest: prefix_order.trans)

lemma match_at_Nil [simp]: "match_at alts [] = None"
  by (simp add: match_at_def find_None_iff)

lemma split_on_not_Nil [simp]: "split_on alts s \<noteq> []"
  by (induction alts s rule: split_on.induct) (auto split: option.splits simp: neq_Nil_conv elim: push_char.elims)

lemma split_on_match:
  "match_at alts s = Some a \<Longrightarrow> split_on alts s = [] # split_on alts (drop (length a) s)"
  by (cases s) simp_all

lemma push_char_Cons: "parts \<noteq> [] \<Longrightarrow> push_char c parts = (c # hd parts) # tl parts"
  by (cases parts) simp_all

lemma push_char_append: "parts \<noteq> [] \<Longrightarrow> push_char c (parts @ more) = push_char c parts @ more"
  by (cases parts) simp_all


lemma split_on_no_occurrence:
  "occurrences alts s = 0 \<Longrightarrow> split_on alts s = [s]"
  by (induction s) (auto split: if_splits)

lemma hd_split_on_prefix: "prefix (hd (split_on alts s)) s"
proof (induction alts s rule: split_on.induct)
  case (1 alts)
  show ?case by simp
next
  case (2 alts c cs)
  show ?case
  proof (cases "match_at alts (c # cs)")
    case None
    with 2 show ?thesis by (simp add: push_char_Cons)
  next
    case (Some a)
    then show ?thesis by simp
  qed
qed

lemma parts_no_occurrence:
  "part \<in> set (split_on alts s) \<Longrightarrow> occurrences alts part = 0"
proof (induction alts s arbitrary: part rule: split_on.induct)
  case (1 alts)
  then show ?case by simp
next
  case (2 alts c cs)
  show ?case
  proof (cases "match_at alts (c # cs)")
    case None
    have pre: "prefix (c # hd (split_on alts cs)) (c # cs)"
      by (simp add: hd_split_on_prefix)
    have m: "match_at alts (c # hd (split_on alts cs)) = None"
      by (rule match_at_None_prefix [OF None pre])
    have "part = c # hd (split_on alts cs) \<or> part \<in> set (tl (split_on alts cs))"
      using "2.prems" None by (simp add: push_char_Cons)
    then show ?thesis
    proof
      assume p: "part = c # hd (split_on alts cs)"
      have "occurrences alts (hd (split_on alts cs)) = 0"
        using "2.IH"(1) [OF None, of "hd (split_on alts cs)"] by simp
      with p m show ?thesis by simp
    next
      assume "part \<in> set (tl (split_on alts cs))"
      then have "part \<in> set (split_on alts cs)"
        by (rule list.set_sel(2) [rotated]) simp
      then show ?thesis using "2.IH"(1) [OF None] by simp
    qed
  next
    case (Some a)
    with "2.prems" have "part = [] \<or> part \<in> set (split_on alts (drop (length a) (c # cs)))"
      by simp
    then show ?thesis using "2.IH"(2) [OF Some] by auto
  qed
qed

lemma separate_match:
  "separate alts \<Longrightarrow> a \<in> set alts \<Longrightarrow> match_at alts (a @ v) = Some a"
  by (simp add: separate_def)

lemma separate_inside:
  "separate alts \<Longrightarrow> a \<in> set alts \<Longrightarrow> occurrences alts (tl a @ v) = occurrences alts v"
  by (simp add: separate_def)

lemma separate_before:
  "separate alts \<Longrightarrow> a \<in> set alts \<Longrightarrow> match_at alts (c # cs @ a @ v) = match_at alts (c # cs)"
  using separate_def [of alts] by (metis append_Cons list.distinct(1))

lemma split_on_append:
  assumes sep: "separate alts" and a: "a \<in> set alts"
  shows "split_on alts (u @ a @ v) = split_on alts u @ split_on alts v"
proof (induction u rule: length_induct)
  case (1 u)
  show ?case
  proof (cases u)
    case Nil
    have "match_at alts (a @ v) = Some a"
      using sep a by (simp add: separate_def)
    moreover from this have "a \<noteq> []"
      by (simp add: match_at_Some)
    ultimately show ?thesis
      using Nil by (cases a) simp_all
  next
    case (Cons c cs)
    have m: "match_at alts (u @ a @ v) = match_at alts u"
      using separate_before [OF sep a] Cons by simp
    show ?thesis
    proof (cases "match_at alts u")
      case None
      have "length cs < length u"
        using Cons by simp
      then have "split_on alts (cs @ a @ v) = split_on alts cs @ split_on alts v"
        using 1 by blast
      then show ?thesis
        using None m Cons by (simp add: push_char_append)
    next
      case (Some b)
      then have b: "b \<noteq> []" "prefix b u"
        by (simp_all add: match_at_Some)
      then obtain w where w: "u = b @ w"
        by (auto simp: prefix_def)
      with b have "length w < length u"
        by (cases b) simp_all
      then have ih: "split_on alts (w @ a @ v) = split_on alts w @ split_on alts v"
        using 1 by blast
      have e1: "split_on alts (u @ a @ v) = [] # split_on alts (drop (length b) (u @ a @ v))"
        using Some m Cons by simp
      have e2: "split_on alts u = [] # split_on alts (drop (length b) u)"
        using Some Cons by simp
      have d1: "drop (length b) (u @ a @ v) = w @ a @ v"
        using w by simp
      have d2: "drop (length b) u = w"
        using w by simp
      show ?thesis
        unfolding e1 e2 d1 d2 ih by simp
    qed
  qed
qed

lemma occurrences_append:
  assumes sep: "separate alts" and a: "a \<in> set alts"
  shows "occurrences alts (u @ a @ v) = occurrences alts u + Suc (occurrences alts v)"
proof (induction u)
  case Nil
  have m: "match_at alts (a @ v) = Some a"
    using sep a by (simp add: separate_def)
  then have "a \<noteq> []"
    by (simp add: match_at_Some)
  then obtain c cs where c: "a = c # cs"
    by (cases a) auto
  have "occurrences alts (tl a @ v) = occurrences alts v"
    using sep a by (simp add: separate_def)
  then have "occurrences alts (cs @ v) = occurrences alts v"
    using c by simp
  moreover have "match_at alts (c # cs @ v) = Some a"
    using m c by simp
  ultimately show ?case
    using c by simp
next
  case (Cons c cs)
  show ?case
    using Cons separate_before [OF sep a, of c cs v] by simp
qed


lemma match_at_single:
  "match_at [m] s = (if m \<noteq> [] \<and> prefix m s then Some m else None)"
  by (simp add: match_at_def)

lemma match_at_pair:
  "match_at [a, b] s =
     (if a \<noteq> [] \<and> prefix a s then Some a else if b \<noteq> [] \<and> prefix b s then Some b else None)"
  by (simp add: match_at_def)

lemma lib_marker_before:
  "u \<noteq> [] \<Longrightarrow> prefix lib_marker (u @ lib_marker @ v) \<longleftrightarrow> prefix lib_marker u"
  by (auto simp: lib_marker_def prefix_append Cons_eq_append_conv)

lemma separate_lib_marker: "separate [lib_marker]"
  unfolding separate_def
proof (intro ballI allI conjI impI)
  fix a v
  assume "a \<in> set [lib_marker]"
  then have a: "a = lib_marker" by simp
  show "match_at [lib_marker] (a @ v) = Some a"
    by (simp add: a match_at_single) (simp add: lib_marker_def)
  show "occurrences [lib_marker] (tl a @ v) = occurrences [lib_marker] v"
    by (simp add: a match_at_single lib_marker_def)
  fix u :: string
  assume "u \<noteq> []"
  then show "match_at [lib_marker] (u @ a @ v) = match_at [lib_marker] u"
    by (simp add: a match_at_single lib_marker_before)
qed

lemma anchors_before:
  "u \<noteq> [] \<Longrightarrow> a \<in> set anchors \<Longrightarrow> b \<in> set anchors \<Longrightarrow> prefix b (u @ a @ v) \<longleftrightarrow> prefix b u"
  by (auto simp: anchors_def usage_anchor_def logging_anchor_def prefix_append Cons_eq_append_conv)

lemma separate_anchors: "separate anchors"
  unfolding separate_def
proof (intro ballI allI conjI impI)
  fix a v
  assume a: "a \<in> set anchors"
  show "match_at anchors (a @ v) = Some a"
    using a by (auto simp: anchors_def match_at_pair usage_anchor_def logging_anchor_def)
  show "occurrences anchors (tl a @ v) = occurrences anchors v"
    using a by (auto simp: anchors_def match_at_pair usage_anchor_def logging_anchor_def)
  fix u :: string
  assume u: "u \<noteq> []"
  have "prefix usage_anchor (u @ a @ v) \<longleftrightarrow> prefix usage_anchor u"
    by (rule anchors_before [OF u a]) (simp add: anchors_def)
  moreover have "prefix logging_anchor (u @ a @ v) \<longleftrightarrow> prefix logging_anchor u"
    by (rule anchors_before [OF u a]) (simp add: anchors_def)
  ultimately show "match_at anchors (u @ a @ v) = match_at anchors u"
    by (simp add: anchors_def match_at_pair)
qed

lemma join_Cons: "parts \<noteq> [] \<Longrightarrow> join sep (part # parts) = part @ sep @ join sep parts"
  by (cases parts) simp_all

lemma join_push_char: "parts \<noteq> [] \<Longrightarrow> join sep (push_char c parts) = c # join sep parts"
proof (cases parts)
  case Nil
  then show ?thesis by simp
next
  case (Cons part rest)
  then show ?thesis by (cases rest) simp_all
qed

lemma join_snoc: "parts \<noteq> [] \<Longrightarrow> join sep (parts @ [part]) = join sep parts @ sep @ part"
  by (induction sep parts rule: join.induct) simp_all

lemma join_split_on_single: "m \<noteq> [] \<Longrightarrow> join m (split_on [m] s) = s"
proof (induction "[m]" s rule: split_on.induct)
  case 1
  show ?case by simp
next
  case (2 c cs)
  show ?case
  proof (cases "match_at [m] (c # cs)")
    case None
    with 2 show ?thesis by (simp add: join_push_char)
  next
    case (Some a)
    then have "a = m" "prefix m (c # cs)"
      by (auto dest: match_at_Some)
    then obtain v where v: "c # cs = m @ v"
      by (auto simp: prefix_def)
    have "join m (split_on [m] v) = v"
      using "2.hyps"(2) [OF Some "2.prems"] v \<open>a = m\<close> by simp
    then show ?thesis
      using split_on_match [OF Some] v \<open>a = m\<close> by (simp add: join_Cons)
  qed
qed

lemma occurrences_char: "occurrences [[c]] s = 0 \<longleftrightarrow> c \<notin> set s"
  by (induction s) (auto simp: match_at_single)

lemma separate_newline: "separate [''\<newline>'']"
  unfolding separate_def
proof (intro ballI allI conjI impI)
  fix a v
  assume "a \<in> set [''\<newline>'']"
  then have a: "a = ''\<newline>''" by simp
  show "match_at [''\<newline>''] (a @ v) = Some a"
    by (simp add: a match_at_single)
  show "occurrences [''\<newline>''] (tl a @ v) = occurrences [''\<newline>''] v"
    by (simp add: a)
  fix u :: string
  assume "u \<noteq> []"
  then show "match_at [''\<newline>''] (u @ a @ v) = match_at [''\<newline>''] u"
    by (cases u) (simp_all add: a match_at_single)
qed

lemma split_on_join_lines:
  "lines \<noteq> [] \<Longrightarrow> \<forall>line \<in> set lines. CHR ''\<newline>'' \<notin> set line \<Longrightarrow>
   split_on [''\<newline>''] (join ''\<newline>'' lines) = lines"
proof (induction "''\<newline>''" lines rule: join.induct)
  case 1
  then show ?case by simp
next
  case (2 part)
  then show ?case
    by (simp add: split_on_no_occurrence occurrences_char)
next
  case (3 part next_part parts)
  have "split_on [''\<newline>''] (part @ ''\<newline>'' @ join ''\<newline>'' (next_part # parts))
        = split_on [''\<newline>''] part @ split_on [''\<newline>''] (join ''\<newline>'' (next_part # parts))"
    by (rule split_on_append [OF separate_newline]) simp
  moreover have "split_on [''\<newline>''] part = [part]"
    using 3(3) by (simp add: split_on_no_occurrence occurrences_char)
  moreover have "split_on [''\<newline>''] (join ''\<newline>'' (next_part # parts)) = next_part # parts"
    using 3 by simp
  ultimately show ?case
    by simp
qed

lemma lines_no_newline: "line \<in> set (str_split T ''\<newline>'') \<Longrightarrow> CHR ''\<newline>'' \<notin> set line"
  using parts_no_occurrence [of line "[''\<newline>'']" T] by (simp add: str_split_def occurrences_char)

lemma str_split_decorate:
  assumes "CHR ''\<newline>'' \<notin> set P"
  shows "str_split (decorate T P) ''\<newline>'' = map (\<lambda>line. P @ line) (str_split T ''\<newline>'')"
  unfolding decorate_def str_split_def
  using assms lines_no_newline [of _ T]
  by (intro split_on_join_lines) (auto simp: str_split_def)

section \<open>The decoration\<close>

text \<open>
  Claim C5. For every text \<open>T\<close> and prefix \<open>P\<close>, \<open>decorate T P\<close> is the lines of
  \<open>T\<close>, each with \<open>P\<close> put in front of it, joined with newlines again. The lines are
  what splitting on the newline gives: they contain no newline and joined with
  newlines they are \<open>T\<close>, so there are as many decorated lines as \<open>T\<close> has lines. A
  text that ends with a newline has an empty last line, and its decoration ends with
  a newline and the bare prefix.
\<close>

theorem decorate_lines:
  "decorate T P = join ''\<newline>'' (map (\<lambda>line. P @ line) (str_split T ''\<newline>''))
   \<and> join ''\<newline>'' (str_split T ''\<newline>'') = T
   \<and> (\<forall>line \<in> set (str_split T ''\<newline>''). CHR ''\<newline>'' \<notin> set line)
   \<and> str_split (T @ ''\<newline>'') ''\<newline>'' = str_split T ''\<newline>'' @ [[]]
   \<and> decorate (T @ ''\<newline>'') P = decorate T P @ ''\<newline>'' @ P"
proof (intro conjI)
  show "decorate T P = join ''\<newline>'' (map (\<lambda>line. P @ line) (str_split T ''\<newline>''))"
    by (simp add: decorate_def)
  show "join ''\<newline>'' (str_split T ''\<newline>'') = T"
    by (simp add: str_split_def join_split_on_single)
  show "\<forall>line \<in> set (str_split T ''\<newline>''). CHR ''\<newline>'' \<notin> set line"
    by (simp add: lines_no_newline)
  have "split_on [''\<newline>''] (T @ ''\<newline>'' @ []) = split_on [''\<newline>''] T @ split_on [''\<newline>''] []"
    by (rule split_on_append [OF separate_newline]) simp
  then show s: "str_split (T @ ''\<newline>'') ''\<newline>'' = str_split T ''\<newline>'' @ [[]]"
    by (simp add: str_split_def)
  show "decorate (T @ ''\<newline>'') P = decorate T P @ ''\<newline>'' @ P"
    unfolding decorate_def s by (simp add: join_snoc str_split_def)
qed

theorem decorate_lines_witness:
  "decorate ''a\<newline>'' ''//!'' = ''//!a\<newline>//!''
   \<and> str_split ''a\<newline>'' ''\<newline>'' = [''a'', []]
   \<and> ''a'' \<in> set (str_split ''a\<newline>'' ''\<newline>'') \<and> CHR ''\<newline>'' \<notin> set ''a''"
  using decorate_lines [of "''a\<newline>''" "''//!''"]
  by (simp add: str_split_def match_at_def)

text \<open>
  Claim C6, as the code has it. The second decoration puts its prefix in front of the
  lines the first one made, so \<open>P2\<close> comes before \<open>P1\<close>: decorating with \<open>P1\<close> and then
  with \<open>P2\<close> is decorating once with \<open>P2 @ P1\<close>, for every text and every \<open>P1\<close>
  without a newline.
\<close>

theorem decorate_twice:
  "CHR ''\<newline>'' \<notin> set P1 \<Longrightarrow> decorate (decorate T P1) P2 = decorate T (P2 @ P1)"
  by (simp add: decorate_def [of "decorate T P1"] str_split_decorate) (simp add: decorate_def comp_def)

theorem decorate_twice_witness:
  "CHR ''\<newline>'' \<notin> set ''//!'' \<and> decorate (decorate ''a\<newline>b'' ''//!'') ''> '' = ''> //!a\<newline>> //!b''"
  using decorate_twice [of "''//!''" "''a\<newline>b''" "''> ''"]
  by (simp add: decorate_def str_split_def match_at_def)

text \<open>
  Claim C6 as the specification words it, with the prefix \<open>P1 @ P2\<close>, fails: the line
  \<open>x\<close> decorated with \<open>a\<close> and then with \<open>b\<close> is \<open>bax\<close>, not \<open>abx\<close>.
\<close>

theorem decorate_twice_counterexample:
  "decorate (decorate ''x'' ''a'') ''b'' \<noteq> decorate ''x'' (''a'' @ ''b'')"
  by (simp add: decorate_def str_split_def match_at_def)

text \<open>
  A first prefix with a newline makes new lines, and the second decoration prefixes
  them too.
\<close>

lemma newline_prefix_decorated_again:
  "decorate (decorate ''x'' ''\<newline>'') ''b'' = ''b\<newline>bx'' \<and> decorate ''x'' (''b'' @ ''\<newline>'') = ''b\<newline>x''"
  by (simp add: decorate_def str_split_def match_at_def)

lemma lib_parts:
  "lib example lib_text =
     (if 1 < length (split_on [lib_marker] lib_text)
      then Inr (decorate example ''//!'' @ ''\<newline>\<newline>// lib\<newline>'' @ split_on [lib_marker] lib_text ! 1)
      else Inl IndexError)"
  by (simp add: lib_def index_def str_split_def lib_marker_def Let_def)

lemma readme_parts:
  "readme example readme_text =
     (if 2 < length (split_on anchors readme_text)
      then Inr (split_on anchors readme_text ! 0 @ ''# Usage\<newline>\<newline>```rust\<newline>'' @ example
                @ ''```\<newline>\<newline># Logging\<newline>'' @ split_on anchors readme_text ! 2)
      else Inl IndexError)"
  by (simp add: readme_def index_def re_split_def anchors_def usage_anchor_def logging_anchor_def Let_def)

lemma no_sublist_no_occurrence:
  "\<forall>a \<in> set alts. \<not> sublist a s \<Longrightarrow> occurrences alts s = 0"
proof (induction s)
  case Nil
  show ?case by simp
next
  case (Cons c cs)
  have "match_at alts (c # cs) = None"
  proof (cases "match_at alts (c # cs)")
    case (Some a)
    then have "a \<in> set alts" "prefix a (c # cs)"
      by (simp_all add: match_at_Some)
    with Cons.prems show ?thesis
      by (auto dest: prefix_imp_sublist)
  qed simp
  moreover have "\<forall>a \<in> set alts. \<not> sublist a cs"
    using Cons.prems by (auto simp: sublist_Cons_right)
  ultimately show ?case
    using Cons.IH by simp
qed

section \<open>The library splice\<close>

text \<open>
  Claim C7. A library text in which \<open>// lib\<close> does not occur has no marker line
  either: splitting gives one part, \<^verbatim>\<open>parts[1]\<close> raises the index error (the
  specification's MissingAnchorError) and no library text is produced.
\<close>

theorem lib_marker_absent:
  "\<not> sublist ''// lib'' lib_text \<Longrightarrow> lib example lib_text = Inl IndexError"
proof -
  assume absent: "\<not> sublist ''// lib'' lib_text"
  have "sublist ''// lib'' lib_marker"
    by (simp add: lib_marker_def sublist_Cons_right)
  then have "\<not> sublist lib_marker lib_text"
    using absent sublist_order.order_trans by blast
  then have "occurrences [lib_marker] lib_text = 0"
    by (simp add: no_sublist_no_occurrence)
  then show ?thesis
    by (simp add: lib_parts split_on_no_occurrence)
qed

theorem lib_marker_absent_witness:
  "\<not> sublist ''// lib'' ''fn keep() {}\<newline>'' \<and> lib ''fn main() {}\<newline>'' ''fn keep() {}\<newline>'' = Inl IndexError"
proof -
  have h: "\<not> sublist ''// lib'' ''fn keep() {}\<newline>''"
    by (simp add: sublist_Cons_right)
  show ?thesis
    using h lib_marker_absent [OF h] by simp
qed

text \<open>
  Claim C8, as the code has it. The marker is matched as the substring
  \<^verbatim>\<open>"// lib\n"\<close>, at the start of a line or inside one. A library text with exactly
  one occurrence of it is \<open>u @ lib_marker @ v\<close> for the text \<open>u\<close> before the occurrence
  and the text \<open>v\<close> behind it. The new library text is the decorated example, a blank
  line, the marker line and then \<open>v\<close>, unchanged: it ends with the tail of the input.
\<close>

theorem lib_one_marker:
  "occurrences [lib_marker] (u @ lib_marker @ v) = 1 \<Longrightarrow>
   lib example (u @ lib_marker @ v) = Inr (decorate example ''//!'' @ ''\<newline>\<newline>// lib\<newline>'' @ v)"
proof -
  assume "occurrences [lib_marker] (u @ lib_marker @ v) = 1"
  moreover have "occurrences [lib_marker] (u @ lib_marker @ v)
      = occurrences [lib_marker] u + Suc (occurrences [lib_marker] v)"
    by (rule occurrences_append [OF separate_lib_marker]) simp
  ultimately have "occurrences [lib_marker] u = 0" "occurrences [lib_marker] v = 0"
    by simp_all
  then have "split_on [lib_marker] u = [u]" "split_on [lib_marker] v = [v]"
    by (simp_all add: split_on_no_occurrence)
  moreover have "split_on [lib_marker] (u @ lib_marker @ v) = split_on [lib_marker] u @ split_on [lib_marker] v"
    by (rule split_on_append [OF separate_lib_marker]) simp
  ultimately show ?thesis
    by (simp add: lib_parts)
qed

theorem lib_one_marker_witness:
  "occurrences [lib_marker] (''old header\<newline>'' @ lib_marker @ ''fn keep() {}\<newline>'') = 1
   \<and> lib ''fn main() {}\<newline>'' (''old header\<newline>'' @ lib_marker @ ''fn keep() {}\<newline>'')
       = Inr (''//!fn main() {}\<newline>//!\<newline>\<newline>// lib\<newline>'' @ ''fn keep() {}\<newline>'')"
proof -
  have h: "occurrences [lib_marker] (''old header\<newline>'' @ lib_marker @ ''fn keep() {}\<newline>'') = 1"
    by (simp add: lib_marker_def match_at_def)
  have d: "decorate ''fn main() {}\<newline>'' ''//!'' = ''//!fn main() {}\<newline>//!''"
    by (simp add: decorate_def str_split_def match_at_def)
  show ?thesis
    using h lib_one_marker [OF h, of "''fn main() {}\<newline>''"] d by simp
qed

text \<open>
  Claim C8 as the specification words it, for a library text with exactly one line
  \<^verbatim>\<open>// lib\<close>, fails. A text whose only such line follows a line that ends with
  \<^verbatim>\<open>// lib\<close> is split at both places and the tail behind the line is dropped; a
  text whose only such line is its last line, without a newline, has no part 1.
\<close>

theorem lib_one_line_counterexample:
  "lib_lines ''foo // lib\<newline>// lib\<newline>tail'' = 1
   \<and> lib ''E'' ''foo // lib\<newline>// lib\<newline>tail'' = Inr ''//!E\<newline>\<newline>// lib\<newline>''
   \<and> \<not> suffix ''tail'' ''//!E\<newline>\<newline>// lib\<newline>''
   \<and> lib_lines ''h\<newline>// lib'' = 1
   \<and> lib ''E'' ''h\<newline>// lib'' = Inl IndexError"
  by (simp add: lib_lines_def lib_def index_def decorate_def str_split_def match_at_def suffix_to_prefix)

text \<open>
  Claim C1, as the code has it. The split is made at every occurrence of the marker
  line and \<^verbatim>\<open>parts[1]\<close> is the part between the first occurrence and the second.
  For a library text with a second occurrence the retained tail is the text \<open>v\<close>
  strictly between the first and the second occurrence; the second marker line and
  all the text \<open>w\<close> behind it are dropped.
\<close>

theorem lib_second_marker:
  "occurrences [lib_marker] u = 0 \<Longrightarrow> occurrences [lib_marker] v = 0 \<Longrightarrow>
   lib example (u @ lib_marker @ v @ lib_marker @ w)
     = Inr (decorate example ''//!'' @ ''\<newline>\<newline>// lib\<newline>'' @ v)"
proof -
  assume "occurrences [lib_marker] u = 0" "occurrences [lib_marker] v = 0"
  then have "split_on [lib_marker] u = [u]" "split_on [lib_marker] v = [v]"
    by (simp_all add: split_on_no_occurrence)
  moreover have "split_on [lib_marker] (u @ lib_marker @ (v @ lib_marker @ w))
      = split_on [lib_marker] u @ split_on [lib_marker] (v @ lib_marker @ w)"
    by (rule split_on_append [OF separate_lib_marker]) simp
  moreover have "split_on [lib_marker] (v @ lib_marker @ w) = split_on [lib_marker] v @ split_on [lib_marker] w"
    by (rule split_on_append [OF separate_lib_marker]) simp
  ultimately show ?thesis
    by (simp add: lib_parts)
qed

theorem lib_second_marker_witness:
  "occurrences [lib_marker] ''a'' = 0 \<and> occurrences [lib_marker] ''b'' = 0
   \<and> lib ''E'' (''a'' @ lib_marker @ ''b'' @ lib_marker @ ''c'') = Inr (''//!E\<newline>\<newline>// lib\<newline>'' @ ''b'')"
proof -
  have a: "occurrences [lib_marker] ''a'' = 0" and b: "occurrences [lib_marker] ''b'' = 0"
    by (simp_all add: lib_marker_def match_at_def)
  have d: "decorate ''E'' ''//!'' = ''//!E''"
    by (simp add: decorate_def str_split_def match_at_def)
  show ?thesis
    using a b lib_second_marker [OF a b, of "''E''" "''c''"] d by simp
qed

text \<open>
  Claim C1 as the specification words it, with all the text behind the first
  occurrence retained, fails: of \<open>b// lib\<newline>c\<close> behind the first marker line only
  \<open>b\<close> is kept.
\<close>

theorem lib_second_marker_counterexample:
  "occurrences [lib_marker] ''a// lib\<newline>b// lib\<newline>c'' = 2
   \<and> lib ''E'' ''a// lib\<newline>b// lib\<newline>c'' = Inr ''//!E\<newline>\<newline>// lib\<newline>b''
   \<and> lib ''E'' ''a// lib\<newline>b// lib\<newline>c''
       \<noteq> Inr (decorate ''E'' ''//!'' @ ''\<newline>\<newline>// lib\<newline>'' @ ''b// lib\<newline>c'')"
  by (simp add: lib_def index_def decorate_def str_split_def lib_marker_def match_at_def)

section \<open>The readme splice\<close>




text \<open>
  Claim C4, as the code has it. With matches \<open>a1\<close> and \<open>a2\<close> of the anchor
  pattern, the text \<open>s0\<close> before the first and the text \<open>s1\<close> between them, the new
  readme text is \<open>s0\<close>, the usage heading with the opening fence, the example, the
  closing fence with the logging heading, and segment 2. Segment 2 is the text \<open>s2\<close>
  behind the second match up to the third match, or up to the end of the text when
  there is no third match; a third match and the text behind it are dropped.
\<close>

theorem readme_third_match:
  "a1 \<in> set anchors \<Longrightarrow> a2 \<in> set anchors \<Longrightarrow>
   occurrences anchors s0 = 0 \<Longrightarrow> occurrences anchors s1 = 0 \<Longrightarrow> occurrences anchors s2 = 0 \<Longrightarrow>
   readme example (s0 @ a1 @ s1 @ a2 @ s2)
     = Inr (s0 @ ''# Usage\<newline>\<newline>```rust\<newline>'' @ example @ ''```\<newline>\<newline># Logging\<newline>'' @ s2)
   \<and> (a3 \<in> set anchors \<longrightarrow>
        readme example (s0 @ a1 @ s1 @ a2 @ s2 @ a3 @ rest)
          = Inr (s0 @ ''# Usage\<newline>\<newline>```rust\<newline>'' @ example @ ''```\<newline>\<newline># Logging\<newline>'' @ s2))"
proof -
  assume a: "a1 \<in> set anchors" "a2 \<in> set anchors"
    and "occurrences anchors s0 = 0" "occurrences anchors s1 = 0" "occurrences anchors s2 = 0"
  then have s: "split_on anchors s0 = [s0]" "split_on anchors s1 = [s1]" "split_on anchors s2 = [s2]"
    by (simp_all add: split_on_no_occurrence)
  have two: "split_on anchors (s0 @ a1 @ s1 @ a2 @ t) = s0 # s1 # split_on anchors t" for t
    using split_on_append [OF separate_anchors a(1), of s0 "s1 @ a2 @ t"]
      split_on_append [OF separate_anchors a(2), of s1 t] s
    by simp
  have "a3 \<in> set anchors \<Longrightarrow> split_on anchors (s2 @ a3 @ rest) = s2 # split_on anchors rest"
    using split_on_append [OF separate_anchors, of a3 s2 rest] s by simp
  then show ?thesis
    using two [of s2] two [of "s2 @ a3 @ rest"] s by (simp add: readme_parts)
qed

theorem readme_third_match_witness:
  "''# Usage\<newline>'' \<in> set anchors \<and> ''# Logging\<newline>'' \<in> set anchors
   \<and> occurrences anchors ''A'' = 0 \<and> occurrences anchors ''B'' = 0 \<and> occurrences anchors ''C'' = 0
   \<and> readme ''E'' (''A'' @ ''# Usage\<newline>'' @ ''B'' @ ''# Logging\<newline>'' @ ''C'')
       = Inr ''A# Usage\<newline>\<newline>```rust\<newline>E```\<newline>\<newline># Logging\<newline>C''
   \<and> readme ''E'' (''A'' @ ''# Usage\<newline>'' @ ''B'' @ ''# Logging\<newline>'' @ ''C'' @ ''# Usage\<newline>'' @ ''D'')
       = Inr ''A# Usage\<newline>\<newline>```rust\<newline>E```\<newline>\<newline># Logging\<newline>C''"
proof -
  have u: "''# Usage\<newline>'' \<in> set anchors" and l: "''# Logging\<newline>'' \<in> set anchors"
    by (simp_all add: anchors_def usage_anchor_def logging_anchor_def)
  have a: "occurrences anchors ''A'' = 0" and b: "occurrences anchors ''B'' = 0"
    and c: "occurrences anchors ''C'' = 0"
    by (simp_all add: anchors_def usage_anchor_def logging_anchor_def match_at_def)
  show ?thesis
    using u l a b c readme_third_match [OF u l a b c, of "''E''" "''# Usage\<newline>''" "''D''"]
    by simp
qed

text \<open>
  Claim C4 as the specification words it, with segment 2 reaching to the end of the
  text, fails on a readme text with three matches: of \<open>C# Usage\<newline>D\<close> behind the
  second match only \<open>C\<close> is kept.
\<close>

theorem readme_third_match_counterexample:
  "occurrences anchors ''A# Usage\<newline>B# Logging\<newline>C# Usage\<newline>D'' = 3
   \<and> readme ''E'' ''A# Usage\<newline>B# Logging\<newline>C# Usage\<newline>D''
       = Inr ''A# Usage\<newline>\<newline>```rust\<newline>E```\<newline>\<newline># Logging\<newline>C''
   \<and> readme ''E'' ''A# Usage\<newline>B# Logging\<newline>C# Usage\<newline>D''
       \<noteq> Inr (''A'' @ ''# Usage\<newline>\<newline>```rust\<newline>'' @ ''E'' @ ''```\<newline>\<newline># Logging\<newline>'' @ ''C# Usage\<newline>D'')"
  by (simp add: readme_def index_def re_split_def anchors_def usage_anchor_def logging_anchor_def match_at_def Let_def)

section \<open>Markers inside a line\<close>

text \<open>
  Claim C10. The markers are matched as substrings. When the marker line does not
  occur in \<open>u\<close>, the library text \<open>u @ lib_marker @ v\<close> is split behind \<open>u\<close>, whether
  \<open>u\<close> ends a line or stops in the middle of one, and the library splice succeeds.
  An occurrence of either readme anchor behind any text \<open>u\<close> is a split point of the
  readme text: the parts the readme splice indexes are the parts of the text before
  the occurrence followed by the parts of the text behind it. With a first anchor
  behind \<open>u\<close> and a second one behind \<open>v\<close>, wherever in their lines, the readme
  splice keeps \<open>u\<close>, drops \<open>v\<close> and keeps the text behind the second anchor up to the
  next one.
\<close>

theorem substring_matching:
  "(occurrences [lib_marker] u = 0 \<longrightarrow>
      str_split (u @ lib_marker @ v) lib_marker = u # str_split v lib_marker
      \<and> lib example (u @ lib_marker @ v)
          = Inr (decorate example ''//!'' @ ''\<newline>\<newline>// lib\<newline>'' @ hd (str_split v lib_marker)))
   \<and> (a \<in> set anchors \<longrightarrow>
      re_split anchors (u @ a @ v) = re_split anchors u @ re_split anchors v)
   \<and> (a \<in> set anchors \<longrightarrow>
      readme example (u @ a @ v)
        = (case index (re_split anchors u @ re_split anchors v) 2 of
             Inl e \<Rightarrow> Inl e
           | Inr part2 \<Rightarrow>
               Inr (hd (re_split anchors u) @ ''# Usage\<newline>\<newline>```rust\<newline>'' @ example
                    @ ''```\<newline>\<newline># Logging\<newline>'' @ part2)))
   \<and> (a \<in> set anchors \<longrightarrow> b \<in> set anchors \<longrightarrow>
      occurrences anchors u = 0 \<longrightarrow> occurrences anchors v = 0 \<longrightarrow>
      readme example (u @ a @ v @ b @ w)
        = Inr (u @ ''# Usage\<newline>\<newline>```rust\<newline>'' @ example
               @ ''```\<newline>\<newline># Logging\<newline>'' @ hd (re_split anchors w)))"
proof (intro conjI impI)
  assume "occurrences [lib_marker] u = 0"
  then have "split_on [lib_marker] u = [u]"
    by (simp add: split_on_no_occurrence)
  moreover have "split_on [lib_marker] (u @ lib_marker @ v) = split_on [lib_marker] u @ split_on [lib_marker] v"
    by (rule split_on_append [OF separate_lib_marker]) simp
  ultimately have s: "split_on [lib_marker] (u @ lib_marker @ v) = u # split_on [lib_marker] v"
    by simp
  then show "str_split (u @ lib_marker @ v) lib_marker = u # str_split v lib_marker"
    by (simp add: str_split_def)
  show "lib example (u @ lib_marker @ v)
      = Inr (decorate example ''//!'' @ ''\<newline>\<newline>// lib\<newline>'' @ hd (str_split v lib_marker))"
    by (simp add: lib_parts s str_split_def hd_conv_nth)
next
  assume "a \<in> set anchors"
  then show "re_split anchors (u @ a @ v) = re_split anchors u @ re_split anchors v"
    by (simp add: re_split_def split_on_append [OF separate_anchors])
next
  assume "a \<in> set anchors"
  then have s: "split_on anchors (u @ a @ v) = split_on anchors u @ split_on anchors v"
    by (rule split_on_append [OF separate_anchors])
  show "readme example (u @ a @ v)
        = (case index (re_split anchors u @ re_split anchors v) 2 of
             Inl e \<Rightarrow> Inl e
           | Inr part2 \<Rightarrow>
               Inr (hd (re_split anchors u) @ ''# Usage\<newline>\<newline>```rust\<newline>'' @ example
                    @ ''```\<newline>\<newline># Logging\<newline>'' @ part2))"
    by (simp add: readme_parts s re_split_def index_def hd_conv_nth nth_append)
next
  assume a: "a \<in> set anchors" and b: "b \<in> set anchors"
    and "occurrences anchors u = 0" "occurrences anchors v = 0"
  then have uv: "split_on anchors u = [u]" "split_on anchors v = [v]"
    by (simp_all add: split_on_no_occurrence)
  have "split_on anchors (u @ a @ v @ b @ w) = split_on anchors u @ split_on anchors (v @ b @ w)"
    by (rule split_on_append [OF separate_anchors a])
  moreover have "split_on anchors (v @ b @ w) = split_on anchors v @ split_on anchors w"
    by (rule split_on_append [OF separate_anchors b])
  ultimately have "split_on anchors (u @ a @ v @ b @ w) = u # v # split_on anchors w"
    using uv by simp
  then show "readme example (u @ a @ v @ b @ w)
        = Inr (u @ ''# Usage\<newline>\<newline>```rust\<newline>'' @ example
               @ ''```\<newline>\<newline># Logging\<newline>'' @ hd (re_split anchors w))"
    by (simp add: readme_parts re_split_def hd_conv_nth)
qed

theorem substring_matching_witness:
  "occurrences [lib_marker] ''let x = 1; '' = 0
   \<and> str_split (''let x = 1; '' @ lib_marker @ ''fn keep() {}'') lib_marker = [''let x = 1; '', ''fn keep() {}'']
   \<and> lib ''E'' (''let x = 1; '' @ lib_marker @ ''fn keep() {}'') = Inr ''//!E\<newline>\<newline>// lib\<newline>fn keep() {}''
   \<and> ''# Usage\<newline>'' \<in> set anchors \<and> ''# Logging\<newline>'' \<in> set anchors
   \<and> re_split anchors (''see '' @ ''# Usage\<newline>'' @ ''B'') = [''see '', ''B'']
   \<and> readme ''E'' (''see '' @ ''# Usage\<newline>'' @ ''B'') = Inl IndexError
   \<and> occurrences anchors ''see '' = 0 \<and> occurrences anchors ''old; '' = 0
   \<and> readme ''E'' (''see '' @ ''# Usage\<newline>'' @ ''old; '' @ ''# Logging\<newline>'' @ ''C'')
       = Inr ''see # Usage\<newline>\<newline>```rust\<newline>E```\<newline>\<newline># Logging\<newline>C''"
proof -
  have h: "occurrences [lib_marker] ''let x = 1; '' = 0"
    by (simp add: lib_marker_def match_at_def)
  have a: "''# Usage\<newline>'' \<in> set anchors" and b: "''# Logging\<newline>'' \<in> set anchors"
    by (simp_all add: anchors_def usage_anchor_def logging_anchor_def)
  have o: "occurrences anchors ''see '' = 0" "occurrences anchors ''old; '' = 0"
    by (simp_all add: anchors_def usage_anchor_def logging_anchor_def match_at_def)
  have d: "decorate ''E'' ''//!'' = ''//!E''"
    by (simp add: decorate_def str_split_def match_at_def)
  have s: "str_split ''fn keep() {}'' lib_marker = [''fn keep() {}'']"
    by (simp add: str_split_def lib_marker_def match_at_def)
  have r: "re_split anchors ''see '' = [''see '']" "re_split anchors ''B'' = [''B'']"
    "re_split anchors ''C'' = [''C'']"
    by (simp_all add: re_split_def anchors_def usage_anchor_def logging_anchor_def match_at_def)
  show ?thesis
    using substring_matching [of "''let x = 1; ''" "''fn keep() {}''" "''E''" "''# Usage\<newline>''"
        "''# Logging\<newline>''" "''C''"]
      substring_matching [of "''see ''" "''B''" "''E''" "''# Usage\<newline>''" "''# Logging\<newline>''" "''C''"]
      substring_matching [of "''see ''" "''old; ''" "''E''" "''# Usage\<newline>''" "''# Logging\<newline>''" "''C''"]
      h a b o
    by (simp add: d s r index_def)
qed

section \<open>The whole run\<close>

text \<open>
  Claim C3. On the example \<^verbatim>\<open>"fn main() {}\n"\<close>, the library text
  \<^verbatim>\<open>"old header\n// lib\nfn keep() {}\n"\<close> and the readme text
  \<^verbatim>\<open>"Intro\n# Usage\nold usage\n# Logging\nLog info"\<close>, one run writes the two new
  texts of the scenario and raises nothing.
\<close>

theorem end_to_end:
  "lib ''fn main() {}\<newline>'' ''old header\<newline>// lib\<newline>fn keep() {}\<newline>''
     = Inr ''//!fn main() {}\<newline>//!\<newline>\<newline>// lib\<newline>fn keep() {}\<newline>''
   \<and> readme ''fn main() {}\<newline>'' ''Intro\<newline># Usage\<newline>old usage\<newline># Logging\<newline>Log info''
     = Inr ''Intro\<newline># Usage\<newline>\<newline>```rust\<newline>fn main() {}\<newline>```\<newline>\<newline># Logging\<newline>Log info''
   \<and> gen [''src/example.rs'' \<mapsto> ''fn main() {}\<newline>'',
          ''src/lib.rs'' \<mapsto> ''old header\<newline>// lib\<newline>fn keep() {}\<newline>'',
          ''ReadMe.md'' \<mapsto> ''Intro\<newline># Usage\<newline>old usage\<newline># Logging\<newline>Log info'']
     = (None,
        [''src/example.rs'' \<mapsto> ''fn main() {}\<newline>'',
         ''src/lib.rs'' \<mapsto> ''//!fn main() {}\<newline>//!\<newline>\<newline>// lib\<newline>fn keep() {}\<newline>'',
         ''ReadMe.md'' \<mapsto> ''Intro\<newline># Usage\<newline>\<newline>```rust\<newline>fn main() {}\<newline>```\<newline>\<newline># Logging\<newline>Log info''])"
proof -
  have l: "lib ''fn main() {}\<newline>'' ''old header\<newline>// lib\<newline>fn keep() {}\<newline>''
     = Inr ''//!fn main() {}\<newline>//!\<newline>\<newline>// lib\<newline>fn keep() {}\<newline>''"
    by (simp add: lib_def index_def decorate_def str_split_def match_at_def)
  have r: "readme ''fn main() {}\<newline>'' ''Intro\<newline># Usage\<newline>old usage\<newline># Logging\<newline>Log info''
     = Inr ''Intro\<newline># Usage\<newline>\<newline>```rust\<newline>fn main() {}\<newline>```\<newline>\<newline># Logging\<newline>Log info''"
    by (simp add: readme_def index_def re_split_def match_at_def Let_def)
  show ?thesis
    by (simp add: l r gen_def read_file_def write_file_def)
qed

subsection \<open>A second run\<close>

lemma join_append_first: "join sep ((p @ q) # parts) = p @ join sep (q # parts)"
  by (cases parts) simp_all

lemma decorate_decorate_rest: "decorate T P = P @ decorate_rest P T"
proof (induction T)
  case Nil
  show ?case by (simp add: decorate_def str_split_def)
next
  case (Cons c cs)
  obtain h t where ht: "split_on [''\<newline>''] cs = h # t"
    by (cases "split_on [''\<newline>''] cs") simp_all
  have ih: "join ''\<newline>'' (h # map (\<lambda>line. P @ line) t) = decorate_rest P cs"
    using Cons ht join_append_first [of "''\<newline>''" P h "map (\<lambda>line. P @ line) t"]
    by (simp add: decorate_def str_split_def)
  show ?case
  proof (cases "c = CHR ''\<newline>''")
    case True
    then show ?thesis
      using Cons by (simp add: decorate_def str_split_def match_at_single join_Cons)
  next
    case False
    then have "decorate (c # cs) P = join ''\<newline>'' ((P @ c # h) # map (\<lambda>line. P @ line) t)"
      by (simp add: decorate_def str_split_def match_at_single ht)
    also have "\<dots> = P @ c # join ''\<newline>'' (h # map (\<lambda>line. P @ line) t)"
      using join_append_first [of "''\<newline>''" "P @ [c]" h "map (\<lambda>line. P @ line) t"] by simp
    finally show ?thesis
      using False ih by simp
  qed
qed

lemma decorate_rest_line_prefix:
  "CHR ''\<newline>'' \<notin> set w \<Longrightarrow> prefix (w @ ''\<newline>'') (decorate_rest P ex @ CHR ''\<newline>'' # t) \<Longrightarrow>
   prefix (w @ ''\<newline>'') ex \<or> ex = w"
proof (induction w arbitrary: ex)
  case Nil
  then show ?case by (cases ex) (auto split: if_splits)
next
  case (Cons a w)
  show ?case
  proof (cases ex)
    case Nil
    with Cons.prems show ?thesis by simp
  next
    case (Cons c cs)
    with Cons.prems have "c \<noteq> CHR ''\<newline>''" "a = c"
      and "prefix (w @ ''\<newline>'') (decorate_rest P cs @ CHR ''\<newline>'' # t)"
      by (auto split: if_splits)
    with Cons.IH [of cs] Cons.prems(1) Cons show ?thesis
      by auto
  qed
qed

lemma lib_marker_in_decorate_rest:
  "\<not> sublist lib_marker ex \<Longrightarrow> \<not> suffix ''// lib'' ex \<Longrightarrow>
   \<not> sublist lib_marker (decorate_rest ''//!'' ex @ ''\<newline>\<newline>'')"
proof (induction ex)
  case Nil
  show ?case by (simp add: lib_marker_def sublist_Cons_right)
next
  case (Cons c cs)
  have cs: "\<not> sublist lib_marker cs" "\<not> suffix ''// lib'' cs"
    using Cons.prems by (auto simp: sublist_Cons_right suffix_Cons)
  then have ih: "\<not> sublist lib_marker (decorate_rest ''//!'' cs @ ''\<newline>\<newline>'')"
    by (rule Cons.IH)
  have here: "\<not> prefix lib_marker (decorate_rest ''//!'' (c # cs) @ ''\<newline>\<newline>'')"
  proof
    assume "prefix lib_marker (decorate_rest ''//!'' (c # cs) @ ''\<newline>\<newline>'')"
    then have "prefix (''// lib'' @ ''\<newline>'') (decorate_rest ''//!'' (c # cs) @ CHR ''\<newline>'' # ''\<newline>'')"
      by (simp add: lib_marker_def)
    then have "prefix (''// lib'' @ ''\<newline>'') (c # cs) \<or> c # cs = ''// lib''"
      by (rule decorate_rest_line_prefix [rotated]) simp
    then show False
      using Cons.prems by (auto simp: lib_marker_def dest: prefix_imp_sublist)
  qed
  show ?case
  proof (cases "c = CHR ''\<newline>''")
    case True
    then show ?thesis
      using ih here by (simp add: sublist_Cons_right) (simp add: lib_marker_def)
  next
    case False
    then show ?thesis
      using ih here by (simp add: sublist_Cons_right)
  qed
qed

lemma lib_marker_in_decorate:
  "\<not> sublist lib_marker ex \<Longrightarrow> \<not> suffix ''// lib'' ex \<Longrightarrow>
   occurrences [lib_marker] (decorate ex ''//!'' @ ''\<newline>\<newline>'') = 0"
proof -
  assume "\<not> sublist lib_marker ex" "\<not> suffix ''// lib'' ex"
  then have "\<not> sublist lib_marker (decorate_rest ''//!'' ex @ ''\<newline>\<newline>'')"
    by (rule lib_marker_in_decorate_rest)
  then have "\<not> sublist lib_marker (decorate ex ''//!'' @ ''\<newline>\<newline>'')"
    by (simp add: decorate_decorate_rest sublist_Cons_right) (simp add: lib_marker_def)
  then show ?thesis
    by (simp add: no_sublist_no_occurrence)
qed

lemma anchor_in_fenced:
  assumes a: "a \<in> set anchors" and ex: "\<not> sublist a ex"
  shows "\<not> sublist a (''\<newline>```rust\<newline>'' @ ex @ ''```\<newline>\<newline>'')"
proof -
  have tail: "\<not> sublist a (ex @ ''```\<newline>\<newline>'')"
    using ex
  proof (induction ex)
    case Nil
    show ?case
      using a by (auto simp: anchors_def usage_anchor_def logging_anchor_def sublist_Cons_right)
  next
    case (Cons c cs)
    have "\<not> prefix a ((c # cs) @ ''```\<newline>\<newline>'')"
    proof
      assume "prefix a ((c # cs) @ ''```\<newline>\<newline>'')"
      then have "prefix a (c # cs) \<or> (\<exists>us. a = (c # cs) @ us \<and> prefix us ''```\<newline>\<newline>'')"
        by (simp only: prefix_append)
      moreover have "\<not> prefix a (c # cs)"
        using Cons.prems by (auto dest: prefix_imp_sublist)
      ultimately obtain us where us: "a = (c # cs) @ us" "prefix us ''```\<newline>\<newline>''"
        by blast
      then have "us \<noteq> []"
        using Cons.prems by auto
      then obtain us' where "us = CHR 0x60 # us'"
        using us(2) by (cases us) auto
      then have "CHR 0x60 \<in> set a"
        using us(1) by simp
      then show False
        using a by (auto simp: anchors_def usage_anchor_def logging_anchor_def)
    qed
    moreover have "\<not> sublist a (cs @ ''```\<newline>\<newline>'')"
      using Cons by (simp add: sublist_Cons_right)
    ultimately show ?case
      by (simp add: sublist_Cons_right)
  qed
  have "\<not> prefix a (c # s)" if "c \<noteq> CHR ''#''" for c s
    using a that by (auto simp: anchors_def usage_anchor_def logging_anchor_def)
  then show ?thesis
    using tail by (simp add: sublist_Cons_right)
qed

lemma lib_again:
  assumes run: "lib example lib_text = Inr new_lib"
    and ex: "\<not> sublist lib_marker example" "\<not> suffix ''// lib'' example"
  shows "lib example new_lib = Inr new_lib"
proof -
  let ?parts = "split_on [lib_marker] lib_text"
  from run have len: "1 < length ?parts"
    and new: "new_lib = (decorate example ''//!'' @ ''\<newline>\<newline>'') @ lib_marker @ ?parts ! 1"
    by (auto simp: lib_parts lib_marker_def split: if_splits)
  have "?parts ! 1 \<in> set ?parts"
    using len by simp
  then have "split_on [lib_marker] (?parts ! 1) = [?parts ! 1]"
    by (simp add: parts_no_occurrence split_on_no_occurrence)
  moreover have "split_on [lib_marker] (decorate example ''//!'' @ ''\<newline>\<newline>'')
      = [decorate example ''//!'' @ ''\<newline>\<newline>'']"
    using ex by (simp add: lib_marker_in_decorate split_on_no_occurrence)
  moreover have "split_on [lib_marker] new_lib
      = split_on [lib_marker] (decorate example ''//!'' @ ''\<newline>\<newline>'') @ split_on [lib_marker] (?parts ! 1)"
    unfolding new by (rule split_on_append [OF separate_lib_marker]) simp
  ultimately have "split_on [lib_marker] new_lib = [decorate example ''//!'' @ ''\<newline>\<newline>'', ?parts ! 1]"
    by simp
  then have "lib example new_lib = Inr (decorate example ''//!'' @ ''\<newline>\<newline>// lib\<newline>'' @ ?parts ! 1)"
    by (simp add: lib_parts)
  then show ?thesis
    using new by (simp add: lib_marker_def)
qed

lemma readme_again:
  assumes run: "readme example readme_text = Inr new_readme"
    and ex: "\<not> sublist usage_anchor example" "\<not> sublist logging_anchor example"
  shows "readme example new_readme = Inr new_readme"
proof -
  let ?parts = "split_on anchors readme_text"
  let ?mid = "''\<newline>```rust\<newline>'' @ example @ ''```\<newline>\<newline>''"
  from run have len: "2 < length ?parts"
    and new: "new_readme = ?parts ! 0 @ usage_anchor @ ?mid @ logging_anchor @ ?parts ! 2"
    by (auto simp: readme_parts usage_anchor_def logging_anchor_def split: if_splits)
  have "occurrences anchors (?parts ! 0) = 0" "occurrences anchors (?parts ! 2) = 0"
    using len by (auto intro!: parts_no_occurrence nth_mem)
  then have ends: "split_on anchors (?parts ! 0) = [?parts ! 0]" "split_on anchors (?parts ! 2) = [?parts ! 2]"
    by (simp_all only: split_on_no_occurrence)
  have "\<forall>a \<in> set anchors. \<not> sublist a ?mid"
    using ex anchor_in_fenced [of _ example] by (auto simp: anchors_def)
  then have "occurrences anchors ?mid = 0"
    by (rule no_sublist_no_occurrence)
  then have mid: "split_on anchors ?mid = [?mid]"
    by (rule split_on_no_occurrence)
  have "split_on anchors new_readme
      = split_on anchors (?parts ! 0) @ split_on anchors (?mid @ logging_anchor @ ?parts ! 2)"
    unfolding new by (rule split_on_append [OF separate_anchors]) (simp add: anchors_def)
  moreover have "split_on anchors (?mid @ logging_anchor @ ?parts ! 2)
      = split_on anchors ?mid @ split_on anchors (?parts ! 2)"
    by (rule split_on_append [OF separate_anchors]) (simp add: anchors_def)
  ultimately have "split_on anchors new_readme = [?parts ! 0, ?mid, ?parts ! 2]"
    using ends mid by simp
  then have "readme example new_readme
      = Inr (?parts ! 0 @ ''# Usage\<newline>\<newline>```rust\<newline>'' @ example @ ''```\<newline>\<newline># Logging\<newline>'' @ ?parts ! 2)"
    by (simp add: readme_parts)
  then show ?thesis
    using new by (simp add: usage_anchor_def logging_anchor_def)
qed

text \<open>
  Claim C9, as the code has it. A second run finds the texts of the first run in the
  files. It writes the same texts again when the example has no marker of its own:
  the example contains none of \<^verbatim>\<open>"// lib\n"\<close>, \<^verbatim>\<open>"# Usage\n"\<close> and
  \<^verbatim>\<open>"# Logging\n"\<close> and does not end with \<^verbatim>\<open>"// lib"\<close>. For every such example
  and all files on which the first run succeeds, the second run succeeds and leaves
  the files as the first run left them.
\<close>

theorem gen_twice:
  assumes "fs ''src/example.rs'' = Some example"
    and "\<not> sublist lib_marker example" and "\<not> suffix ''// lib'' example"
    and "\<not> sublist usage_anchor example" and "\<not> sublist logging_anchor example"
    and "gen fs = (None, fs')"
  shows "gen fs' = (None, fs')"
proof -
  from assms(1,6) obtain lib_text new_lib readme_text new_readme where
    l: "lib example lib_text = Inr new_lib" and
    r: "readme example readme_text = Inr new_readme" and
    fs': "fs' = fs(''src/lib.rs'' \<mapsto> new_lib, ''ReadMe.md'' \<mapsto> new_readme)"
    by (auto simp: gen_def read_file_def write_file_def Let_def split: option.splits sum.splits)
  have l2: "lib example new_lib = Inr new_lib"
    using l assms(2,3) by (rule lib_again)
  have r2: "readme example new_readme = Inr new_readme"
    using r assms(4,5) by (rule readme_again)
  have same: "fs'(''src/lib.rs'' \<mapsto> new_lib, ''ReadMe.md'' \<mapsto> new_readme) = fs'"
    by (auto simp: fs')
  show ?thesis
    using assms(1) l2 r2 same
    by (simp add: gen_def read_file_def write_file_def fs')
qed

theorem gen_twice_witness:
  "[''src/example.rs'' \<mapsto> ''fn main() {}\<newline>'',
    ''src/lib.rs'' \<mapsto> ''old header\<newline>// lib\<newline>fn keep() {}\<newline>'',
    ''ReadMe.md'' \<mapsto> ''Intro\<newline># Usage\<newline>old usage\<newline># Logging\<newline>Log info''] ''src/example.rs''
     = Some ''fn main() {}\<newline>''
   \<and> \<not> sublist lib_marker ''fn main() {}\<newline>'' \<and> \<not> suffix ''// lib'' ''fn main() {}\<newline>''
   \<and> \<not> sublist usage_anchor ''fn main() {}\<newline>'' \<and> \<not> sublist logging_anchor ''fn main() {}\<newline>''
   \<and> gen [''src/example.rs'' \<mapsto> ''fn main() {}\<newline>'',
          ''src/lib.rs'' \<mapsto> ''//!fn main() {}\<newline>//!\<newline>\<newline>// lib\<newline>fn keep() {}\<newline>'',
          ''ReadMe.md'' \<mapsto> ''Intro\<newline># Usage\<newline>\<newline>```rust\<newline>fn main() {}\<newline>```\<newline>\<newline># Logging\<newline>Log info'']
     = (None,
        [''src/example.rs'' \<mapsto> ''fn main() {}\<newline>'',
         ''src/lib.rs'' \<mapsto> ''//!fn main() {}\<newline>//!\<newline>\<newline>// lib\<newline>fn keep() {}\<newline>'',
         ''ReadMe.md'' \<mapsto> ''Intro\<newline># Usage\<newline>\<newline>```rust\<newline>fn main() {}\<newline>```\<newline>\<newline># Logging\<newline>Log info''])"
proof -
  let ?fs = "[''src/example.rs'' \<mapsto> ''fn main() {}\<newline>'',
    ''src/lib.rs'' \<mapsto> ''old header\<newline>// lib\<newline>fn keep() {}\<newline>'',
    ''ReadMe.md'' \<mapsto> ''Intro\<newline># Usage\<newline>old usage\<newline># Logging\<newline>Log info'']"
  let ?fs' = "[''src/example.rs'' \<mapsto> ''fn main() {}\<newline>'',
         ''src/lib.rs'' \<mapsto> ''//!fn main() {}\<newline>//!\<newline>\<newline>// lib\<newline>fn keep() {}\<newline>'',
         ''ReadMe.md'' \<mapsto> ''Intro\<newline># Usage\<newline>\<newline>```rust\<newline>fn main() {}\<newline>```\<newline>\<newline># Logging\<newline>Log info'']"
  have e: "?fs ''src/example.rs'' = Some ''fn main() {}\<newline>''"
    by simp
  have m: "\<not> sublist lib_marker ''fn main() {}\<newline>''"
    by (simp add: lib_marker_def sublist_Cons_right)
  have s: "\<not> suffix ''// lib'' ''fn main() {}\<newline>''"
    by (simp add: suffix_to_prefix)
  have u: "\<not> sublist usage_anchor ''fn main() {}\<newline>''"
    by (simp add: usage_anchor_def sublist_Cons_right)
  have l: "\<not> sublist logging_anchor ''fn main() {}\<newline>''"
    by (simp add: logging_anchor_def sublist_Cons_right)
  have g: "gen ?fs = (None, ?fs')"
    by (simp add: gen_def read_file_def write_file_def lib_def readme_def index_def decorate_def
        str_split_def re_split_def match_at_def Let_def)
  show ?thesis
    using e m s u l gen_twice [OF e m s u l g] by simp
qed

text \<open>
  Claim C9 as the specification words it, for every example, fails. With the line
  \<^verbatim>\<open>"fn main() {} // lib"\<close> in the example, the first run puts a marker line of the
  example in front of the marker line of the library text; the second run splits
  there and replaces the kept tail \<^verbatim>\<open>"fn keep() {}\n"\<close> by the end of the doc
  comment.
\<close>

theorem gen_twice_counterexample:
  "gen [''src/example.rs'' \<mapsto> ''fn main() {} // lib\<newline>'',
        ''src/lib.rs'' \<mapsto> ''old header\<newline>// lib\<newline>fn keep() {}\<newline>'',
        ''ReadMe.md'' \<mapsto> ''Intro\<newline># Usage\<newline>old usage\<newline># Logging\<newline>Log info'']
     = (None,
        [''src/example.rs'' \<mapsto> ''fn main() {} // lib\<newline>'',
         ''src/lib.rs'' \<mapsto> ''//!fn main() {} // lib\<newline>//!\<newline>\<newline>// lib\<newline>fn keep() {}\<newline>'',
         ''ReadMe.md'' \<mapsto> ''Intro\<newline># Usage\<newline>\<newline>```rust\<newline>fn main() {} // lib\<newline>```\<newline>\<newline># Logging\<newline>Log info''])
   \<and> gen [''src/example.rs'' \<mapsto> ''fn main() {} // lib\<newline>'',
          ''src/lib.rs'' \<mapsto> ''//!fn main() {} // lib\<newline>//!\<newline>\<newline>// lib\<newline>fn keep() {}\<newline>'',
          ''ReadMe.md'' \<mapsto> ''Intro\<newline># Usage\<newline>\<newline>```rust\<newline>fn main() {} // lib\<newline>```\<newline>\<newline># Logging\<newline>Log info'']
     = (None,
        [''src/example.rs'' \<mapsto> ''fn main() {} // lib\<newline>'',
         ''src/lib.rs'' \<mapsto> ''//!fn main() {} // lib\<newline>//!\<newline>\<newline>// lib\<newline>//!\<newline>\<newline>'',
         ''ReadMe.md'' \<mapsto> ''Intro\<newline># Usage\<newline>\<newline>```rust\<newline>fn main() {} // lib\<newline>```\<newline>\<newline># Logging\<newline>Log info''])
   \<and> ''//!fn main() {} // lib\<newline>//!\<newline>\<newline>// lib\<newline>//!\<newline>\<newline>''
       \<noteq> ''//!fn main() {} // lib\<newline>//!\<newline>\<newline>// lib\<newline>fn keep() {}\<newline>''"
  by (simp add: gen_def read_file_def write_file_def lib_def readme_def index_def decorate_def
      str_split_def re_split_def match_at_def Let_def)

text \<open>
  The other three conditions on the example are needed as well: an example that ends
  with \<^verbatim>\<open>"// lib"\<close>, and an example with one of the readme anchors, change the
  kept tail in the second run.
\<close>

lemma other_markers_second_run:
  "lib ''// lib'' ''h\<newline>// lib\<newline>t'' = Inr ''//!// lib\<newline>\<newline>// lib\<newline>t''
   \<and> lib ''// lib'' ''//!// lib\<newline>\<newline>// lib\<newline>t'' = Inr ''//!// lib\<newline>\<newline>// lib\<newline>\<newline>''
   \<and> readme ''# Usage\<newline>'' ''A# Usage\<newline>B# Logging\<newline>C''
       = Inr ''A# Usage\<newline>\<newline>```rust\<newline># Usage\<newline>```\<newline>\<newline># Logging\<newline>C''
   \<and> readme ''# Usage\<newline>'' ''A# Usage\<newline>\<newline>```rust\<newline># Usage\<newline>```\<newline>\<newline># Logging\<newline>C''
       = Inr ''A# Usage\<newline>\<newline>```rust\<newline># Usage\<newline>```\<newline>\<newline># Logging\<newline>```\<newline>\<newline>''
   \<and> readme ''# Logging\<newline>'' ''A# Usage\<newline>B# Logging\<newline>C''
       = Inr ''A# Usage\<newline>\<newline>```rust\<newline># Logging\<newline>```\<newline>\<newline># Logging\<newline>C''
   \<and> readme ''# Logging\<newline>'' ''A# Usage\<newline>\<newline>```rust\<newline># Logging\<newline>```\<newline>\<newline># Logging\<newline>C''
       = Inr ''A# Usage\<newline>\<newline>```rust\<newline># Logging\<newline>```\<newline>\<newline># Logging\<newline>```\<newline>\<newline>''"
  by (simp add: lib_def readme_def index_def decorate_def str_split_def re_split_def match_at_def Let_def)

end
